theory Spec2Isabelle
  imports Main "HOL-Library.Sublist" "HOL-Library.AList" "HOL-Library.Word"
begin

section \<open>Data model\<close>

text \<open>
  The program is one Python module, \<^verbatim>\<open>app.py\<close>. Its values are the values
  \<^verbatim>\<open>json.loads\<close> builds: \<^verbatim>\<open>None\<close>, booleans, unbounded integers,
  floats, strings, lists and dictionaries with string keys. A dictionary keeps its
  insertion order, so it is an association list; the keys of a dictionary built by
  Python are distinct. A Python \<^verbatim>\<open>str\<close> is a \<^typ>\<open>string\<close>: the model reads
  each character as a code point below 256.

  A float is kept as sign, mantissa and binary exponent (the value is
  \<open>\<plusminus> m * 2 ^ e\<close>), or an infinity, or not-a-number: the program only ever compares
  a float with the integer zero.
\<close>

datatype pyfloat = PyFloat bool nat int | PyInf bool | PyNaN

datatype json =
    JNull
  | JBool bool
  | JInt int
  | JFloat pyfloat
  | JStr string
  | JList "json list"
  | JDict "(string \<times> json) list"

type_synonym json_object = "(string \<times> json) list"

type_synonym bytes = "8 word list"

text \<open>An exception is kept as its message, \<^verbatim>\<open>str(e)\<close>; \<open>Inl\<close> is a raise.\<close>

type_synonym exn = string

subsection \<open>Python's equality with zero, truth value and item assignment\<close>

fun float_is_zero :: "pyfloat \<Rightarrow> bool" where
  "float_is_zero (PyFloat s m e) = (m = 0)"
| "float_is_zero (PyInf s) = False"
| "float_is_zero PyNaN = False"

text \<open>\<^verbatim>\<open>v == 0\<close>: true of the integer 0, of \<^verbatim>\<open>False\<close> (a bool is an int) and of
  the floats 0.0 and -0.0.\<close>

fun eq_zero :: "json \<Rightarrow> bool" where
  "eq_zero (JInt n) = (n = 0)"
| "eq_zero (JBool b) = (\<not> b)"
| "eq_zero (JFloat f) = float_is_zero f"
| "eq_zero JNull = False"
| "eq_zero (JStr s) = False"
| "eq_zero (JList xs) = False"
| "eq_zero (JDict d) = False"

text \<open>\<^verbatim>\<open>v in ("", None, [], {}, 0)\<close>: membership in a tuple is equality with one
  of its elements, tried in order.\<close>

definition in_empties :: "json \<Rightarrow> bool" where
  "in_empties v = (v = JStr [] \<or> v = JNull \<or> v = JList [] \<or> v = JDict [] \<or> eq_zero v)"

text \<open>The truth value of \<^verbatim>\<open>if data:\<close>.\<close>

fun truthy :: "json \<Rightarrow> bool" where
  "truthy JNull = False"
| "truthy (JBool b) = b"
| "truthy (JInt n) = (n \<noteq> 0)"
| "truthy (JFloat f) = (\<not> float_is_zero f)"
| "truthy (JStr s) = (s \<noteq> [])"
| "truthy (JList xs) = (xs \<noteq> [])"
| "truthy (JDict d) = (d \<noteq> [])"

text \<open>\<^verbatim>\<open>d[k] = v\<close> with a string key: a dictionary replaces the value of a key it
  has, in place, and appends a new key; every other value raises TypeError (the
  message depends on the type and is shortened here).\<close>

fun setitem :: "json \<Rightarrow> string \<Rightarrow> json \<Rightarrow> exn + json" where
  "setitem (JDict d) k v = Inr (JDict (AList.update k v d))"
| "setitem JNull k v = Inl ''TypeError''"
| "setitem (JBool b) k v = Inl ''TypeError''"
| "setitem (JInt n) k v = Inl ''TypeError''"
| "setitem (JFloat f) k v = Inl ''TypeError''"
| "setitem (JStr s) k v = Inl ''TypeError''"
| "setitem (JList xs) k v = Inl ''TypeError''"

section \<open>Field normalizer: \<^verbatim>\<open>clean_empty\<close>\<close>

text \<open>
  \<^verbatim>\<open>
  def clean_empty(d):
      if isinstance(d, dict):
          return {k: clean_empty(v) for k, v in d.items() if v not in ("", None, [], {}, 0)}
      elif isinstance(d, list):
          return [clean_empty(i) for i in d if i not in ("", None, [], {}, 0)]
      return d
  \<close>
  The condition of each comprehension reads the value as it stands in the input;
  the value kept is the cleaned one.
\<close>

fun clean_empty :: "json \<Rightarrow> json" where
  "clean_empty (JDict d) =
     JDict (map (\<lambda>(k, v). (k, clean_empty v)) (filter (\<lambda>(k, v). \<not> in_empties v) d))"
| "clean_empty (JList d) =
     JList (map clean_empty (filter (\<lambda>i. \<not> in_empties i) d))"
| "clean_empty d = d"

text \<open>The pruning law as the specification words it: at every depth, no value
  under a key of a mapping and no element of a sequence is one of the five empty
  values.\<close>

fun pruned :: "json \<Rightarrow> bool" where
  "pruned (JDict d) = list_all (\<lambda>(k, v). \<not> in_empties v \<and> pruned v) d"
| "pruned (JList d) = list_all (\<lambda>i. \<not> in_empties i \<and> pruned i) d"
| "pruned d = True"

section \<open>Response parser: \<^verbatim>\<open>parse_json\<close>\<close>

text \<open>
  \<^verbatim>\<open>\s\<close> of a Unicode pattern, on the code points below 256: tab to carriage
  return, the separators 0x1C to 0x1F, space, 0x85 and the no-break space.
\<close>

definition is_space :: "char \<Rightarrow> bool" where
  "is_space c =
     (let n = (of_char c :: nat)
      in (9 \<le> n \<and> n \<le> 13) \<or> (28 \<le> n \<and> n \<le> 32) \<or> n = 133 \<or> n = 160)"

text \<open>
  \<^verbatim>\<open>re.search\<close> tries the pattern at each start position, left to right, and
  returns the first match; the matcher of a pattern at one position is its argument.
\<close>

fun re_search :: "(string \<Rightarrow> 'a option) \<Rightarrow> string \<Rightarrow> 'a option" where
  "re_search m [] = m []"
| "re_search m (c # cs) =
     (case m (c # cs) of Some g \<Rightarrow> Some g | None \<Rightarrow> re_search m cs)"

text \<open>
  The tail \<^verbatim>\<open>.*?\}\s*```\<close> of the fenced pattern, after the opening brace, under
  \<^verbatim>\<open>re.DOTALL\<close>: the lazy star takes as few characters as it can, so the group
  ends at the first closing brace that is followed by white space and the three
  backquotes. A backquote is not white space, so \<^verbatim>\<open>\s*\<close> has to take all the
  white space there is.
\<close>

fun lazy_body :: "string \<Rightarrow> string option" where
  "lazy_body [] = None"
| "lazy_body (c # cs) =
     (if c = CHR ''}'' \<and> prefix ''```'' (dropWhile is_space cs) then Some [c]
      else map_option ((#) c) (lazy_body cs))"

text \<open>Group 1 of \<^verbatim>\<open>```json\s*(\{.*?\})\s*```\<close> matched at the head of the text.\<close>

definition fenced_at :: "string \<Rightarrow> string option" where
  "fenced_at t =
     (if prefix ''```json'' t then
        (case dropWhile is_space (drop 7 t) of
           [] \<Rightarrow> None
         | c # cs \<Rightarrow> if c = CHR ''{'' then map_option ((#) c) (lazy_body cs) else None)
      else None)"

text \<open>Group 0 of \<^verbatim>\<open>\{.*\}\<close> matched at the head of the text: the greedy star
  runs to the last closing brace.\<close>

definition braces_at :: "string \<Rightarrow> string option" where
  "braces_at t =
     (case t of
        [] \<Rightarrow> None
      | c # cs \<Rightarrow>
          if c = CHR ''{'' \<and> CHR ''}'' \<in> set cs
          then Some (c # rev (dropWhile (\<lambda>x. x \<noteq> CHR ''}'') (rev cs)))
          else None)"

text \<open>
  \<^verbatim>\<open>
  def parse_json(text):
      try:
          if "```json" in text:
              match = re.search(r"```json\s*(\{.*?\})\s*```", text, re.DOTALL)
          else:
              match = re.search(r"\{.*\}", text, re.DOTALL)
          if not match:
              return None
          return json.loads(match.group(1 if "```json" in text else 0))
      except Exception as e:
          return None
  \<close>
  \<^verbatim>\<open>json.loads\<close> is the standard library's decoder and a parameter here. Both
  patterns hand it a text that begins with an opening brace, on which it returns a
  dictionary or raises, so the parameter returns an object or \<open>None\<close> (the raise,
  which \<^verbatim>\<open>parse_json\<close> turns into \<^verbatim>\<open>None\<close>). Python's \<^verbatim>\<open>None\<close> is
  \<^const>\<open>JNull\<close>.
\<close>

definition parse_json :: "(string \<Rightarrow> json_object option) \<Rightarrow> string \<Rightarrow> json" where
  "parse_json loads text =
     (let match = (if sublist ''```json'' text then re_search fenced_at text
                   else re_search braces_at text)
      in case match of
           None \<Rightarrow> JNull
         | Some g \<Rightarrow> (case loads g of None \<Rightarrow> JNull | Some obj \<Rightarrow> JDict obj))"

section \<open>Item extractor: \<^verbatim>\<open>process_image\<close>\<close>

text \<open>
  The collaborators outside the module are parameters, gathered in one record:
  \<^item> \<open>from_buffer\<close> is \<^verbatim>\<open>magic.from_buffer(_, mime=True)\<close>;
  \<^item> \<open>generate_content n\<close> is the remote model at the \<open>n\<close>-th extraction of a
    request: \<^verbatim>\<open>model.generate_content(prompt).text\<close>, or the exception that
    the call or the reading of the text raises;
  \<^item> \<open>json_loads\<close> is \<^verbatim>\<open>json.loads\<close> (see above);
  \<^item> \<open>utc_now n\<close> is the ISO-8601 text of the clock at the \<open>n\<close>-th extraction;
  \<^item> \<open>zip_open\<close> is \<^verbatim>\<open>zipfile.ZipFile(io.BytesIO(_)).infolist()\<close>, or the
    exception the constructor raises on bytes that are no archive.
\<close>

record prompt =
  instruction :: string
  inline_mime_type :: string
  inline_data :: string

text \<open>An archive member: its name, \<^verbatim>\<open>is_dir()\<close>, and what
  \<^verbatim>\<open>z.open(zip_info).read()\<close> gives.\<close>

record zip_info =
  zi_filename :: string
  zi_is_dir :: bool
  zi_read :: "exn + bytes"

record env =
  from_buffer :: "bytes \<Rightarrow> string"
  generate_content :: "nat \<Rightarrow> prompt \<Rightarrow> exn + string"
  json_loads :: "string \<Rightarrow> json_object option"
  utc_now :: "nat \<Rightarrow> string"
  zip_open :: "bytes \<Rightarrow> exn + zip_info list"

text \<open>
  \<^verbatim>\<open>base64.b64encode(image_data).decode("utf-8")\<close>: three bytes give four
  characters of the standard alphabet, and a last group of one or two bytes is
  padded with the equals sign.
\<close>

definition b64_char :: "nat \<Rightarrow> char" where
  "b64_char i =
     ''ABCDEFGHIJKLMNOPQRSTUVWXYZabcdefghijklmnopqrstuvwxyz0123456789+/'' ! i"

fun b64encode :: "bytes \<Rightarrow> string" where
  "b64encode [] = []"
| "b64encode [a] =
     (let n = unat a * 65536
      in [b64_char (n div 262144), b64_char (n div 4096 mod 64), CHR ''='', CHR ''=''])"
| "b64encode [a, b] =
     (let n = unat a * 65536 + unat b * 256
      in [b64_char (n div 262144), b64_char (n div 4096 mod 64),
          b64_char (n div 64 mod 64), CHR ''=''])"
| "b64encode (a # b # c # rest) =
     (let n = unat a * 65536 + unat b * 256 + unat c
      in [b64_char (n div 262144), b64_char (n div 4096 mod 64),
          b64_char (n div 64 mod 64), b64_char (n mod 64)] @ b64encode rest)"

definition extraction_instruction :: string where
  \<open>extraction_instruction =
     ''You are an invoice data extractor. Extract the following fields in JSON format:''
     @ [CHR 0x0A] @
     ''        {"vendor": {"name": "", "company": ""}, "invoice_no": "", "date": "", "due_date": "", "vehicle_no": "",''
     @ [CHR 0x0A] @
     ''        "bill_to": {"name": "", "company": ""}, "issued_to": {"name": "", "company": ""}, "items": [{"description": "", "unit_price": 0, "quantity": 0, "total": 0, "remark": ""}],''
     @ [CHR 0x0A] @
     ''        "subtotal": 0, "tax_percent": 0, "total": 0}''\<close>

text \<open>
  \<^verbatim>\<open>
  def process_image(image_data):
      mime_type = magic.from_buffer(image_data, mime=True)
      if not mime_type.startswith("image/"):
          return None
      image_base64 = base64.b64encode(image_data).decode("utf-8")
      prompt = [ """You are ...""", {"mime_type": mime_type, "data": image_base64} ]
      response = model.generate_content(prompt)
      data = parse_json(response.text)
      if data:
          data["timestamp"] = datetime.datetime.now(datetime.timezone.utc).isoformat()
          data = clean_empty(data)
      return data
  \<close>
  The function has no handler of its own: what the remote call raises leaves it.
\<close>

definition process_image :: "env \<Rightarrow> nat \<Rightarrow> bytes \<Rightarrow> exn + json" where
  "process_image env n image_data =
     (let mime_type = from_buffer env image_data in
      if \<not> prefix ''image/'' mime_type then Inr JNull
      else
        let image_base64 = b64encode image_data;
            prompt = \<lparr>instruction = extraction_instruction,
                      inline_mime_type = mime_type, inline_data = image_base64\<rparr>
        in case generate_content env n prompt of
             Inl e \<Rightarrow> Inl e
           | Inr text \<Rightarrow>
               (let data = parse_json (json_loads env) text in
                if truthy data then
                  (case setitem data ''timestamp'' (JStr (utc_now env n)) of
                     Inl e \<Rightarrow> Inl e
                   | Inr data' \<Rightarrow> Inr (clean_empty data'))
                else Inr data))"

section \<open>Batch orchestrator: \<^verbatim>\<open>upload_image\<close>\<close>

text \<open>\<^verbatim>\<open>str.lower\<close> on the code points below 256: the letters A to Z and the
  accented capitals 0xC0 to 0xDE (but the multiplication sign 0xD7) move up by 32.\<close>

definition lower_char :: "char \<Rightarrow> char" where
  "lower_char c =
     (let n = (of_char c :: nat)
      in if (65 \<le> n \<and> n \<le> 90) \<or> (192 \<le> n \<and> n \<le> 222 \<and> n \<noteq> 215)
         then char_of (n + 32) else c)"

definition lower :: "string \<Rightarrow> string" where
  "lower s = map lower_char s"

text \<open>An uploaded part: \<^verbatim>\<open>file.filename\<close> and \<^verbatim>\<open>file.read()\<close>.\<close>

type_synonym upload = "string \<times> bytes"

record response =
  status :: nat
  body :: json

text \<open>
  Both branches of the loop end in
  \<^verbatim>\<open>
  if result:
      result["filename"] = name
      results.append(result)
  \<close>
\<close>

definition add_result :: "json \<Rightarrow> string \<Rightarrow> json list \<Rightarrow> exn + json list" where
  "add_result result name results =
     (if truthy result then
        (case setitem result ''filename'' (JStr name) of
           Inl e \<Rightarrow> Inl e
         | Inr result' \<Rightarrow> Inr (results @ [result']))
      else Inr results)"

text \<open>
  The inner loop over \<^verbatim>\<open>z.infolist()\<close>. The state is the number of extractions
  made so far in the request and the list \<^verbatim>\<open>results\<close>.
  \<^verbatim>\<open>
  for zip_info in z.infolist():
      if zip_info.is_dir():
          continue
      with z.open(zip_info) as image_file:
          image_bytes = image_file.read()
          result = process_image(image_bytes)
          if result: ...
  \<close>
\<close>

fun process_entries ::
  "env \<Rightarrow> zip_info list \<Rightarrow> nat \<times> json list \<Rightarrow> exn + nat \<times> json list" where
  "process_entries env [] st = Inr st"
| "process_entries env (zi # zis) (n, results) =
     (if zi_is_dir zi then process_entries env zis (n, results)
      else
        case zi_read zi of
          Inl e \<Rightarrow> Inl e
        | Inr image_bytes \<Rightarrow>
            (case process_image env n image_bytes of
               Inl e \<Rightarrow> Inl e
             | Inr result \<Rightarrow>
                 (case add_result result (zi_filename zi) results of
                    Inl e \<Rightarrow> Inl e
                  | Inr results' \<Rightarrow> process_entries env zis (Suc n, results'))))"

text \<open>
  The loop over the uploaded parts.
  \<^verbatim>\<open>
  for file in files:
      filename = file.filename.lower()
      file_data = file.read()
      if filename.endswith('.zip'):
          with zipfile.ZipFile(io.BytesIO(file_data)) as z:
              for zip_info in z.infolist(): ...
      else:
          result = process_image(file_data)
          if result:
              result["filename"] = filename
              results.append(result)
  \<close>
\<close>

fun process_files ::
  "env \<Rightarrow> upload list \<Rightarrow> nat \<times> json list \<Rightarrow> exn + nat \<times> json list" where
  "process_files env [] st = Inr st"
| "process_files env (file # files) (n, results) =
     (let filename = lower (fst file); file_data = snd file in
      if suffix ''.zip'' filename then
        (case zip_open env file_data of
           Inl e \<Rightarrow> Inl e
         | Inr infolist \<Rightarrow>
             (case process_entries env infolist (n, results) of
                Inl e \<Rightarrow> Inl e
              | Inr st' \<Rightarrow> process_files env files st'))
      else
        (case process_image env n file_data of
           Inl e \<Rightarrow> Inl e
         | Inr result \<Rightarrow>
             (case add_result result filename results of
                Inl e \<Rightarrow> Inl e
              | Inr results' \<Rightarrow> process_files env files (Suc n, results'))))"

text \<open>The four responses of the handler; \<^verbatim>\<open>jsonify\<close> of a dictionary, with the
  status (200 where the source gives none).\<close>

definition no_files_uploaded :: response where
  "no_files_uploaded = \<lparr>status = 400, body = JDict [(''error'', JStr ''No files uploaded'')]\<rparr>"

definition no_valid_images :: response where
  "no_valid_images =
     \<lparr>status = 400, body = JDict [(''error'', JStr ''No valid images found to process'')]\<rparr>"

definition processing_failed :: "exn \<Rightarrow> response" where
  "processing_failed e =
     \<lparr>status = 500, body = JDict [(''error'', JStr (''Invoice processing failed: '' @ e))]\<rparr>"

definition invoices :: "json list \<Rightarrow> response" where
  "invoices results = \<lparr>status = 200, body = JDict [(''invoices'', JList results)]\<rparr>"

text \<open>Lines 139 to 144: what the handler returns once the loop and the join are
  done.\<close>

definition respond :: "json list \<Rightarrow> response" where
  "respond results = (if results = [] then no_valid_images else invoices results)"

text \<open>
  The value the handler returns, as a function of the request: the body of the
  \<^verbatim>\<open>try\<close> and its \<^verbatim>\<open>except Exception\<close> clause. The handler's writes to the
  shared counter and its background thread are the subject of the next section.
  \<^verbatim>\<open>
  try:
      files = request.files.getlist('image')
      if not files:
          return jsonify({"error": "No files uploaded"}), 400
      results = []
      ...
      if not results:
          return jsonify({"error": "No valid images found to process"}), 400
      return jsonify({"invoices": results})
  except Exception as e:
      return jsonify({"error": f"Invoice processing failed: {str(e)}"}), 500
  \<close>
\<close>

definition upload_image :: "env \<Rightarrow> upload list \<Rightarrow> response" where
  "upload_image env files =
     (if files = [] then no_files_uploaded
      else
        case process_files env files (0, []) of
          Inl e \<Rightarrow> processing_failed e
        | Inr (n, results) \<Rightarrow> respond results)"

section \<open>Progress tracker\<close>

text \<open>
  The module has one global, \<^verbatim>\<open>progress\<close>, written by the handler and by the
  thread the handler starts, and read by \<^verbatim>\<open>get_progress\<close>.
  \<^verbatim>\<open>
  def simulate_progress():
      global progress
      for i in range(1, 101):
          progress = i
          time.sleep(0.02)
  \<close>
  The thread is \<open>Advancing i\<close> when its next statement is \<^verbatim>\<open>progress = i\<close>.
  The handler is at one of five places: before \<^verbatim>\<open>progress = 0\<close>, before the
  test of \<^verbatim>\<open>files\<close>, in the loop, at \<^verbatim>\<open>progress_thread.join()\<close> with the
  results of the loop, or returned. A store to the global is one atomic step, and the
  two threads interleave in any order; the sleep only delays the thread and is not
  modelled.
\<close>

datatype thread = NotStarted | Advancing nat | Finished

datatype pc = AtReset | AtValidate | AtLoop | AtJoin "json list" | Returned response

record server =
  progress :: nat
  advancer :: thread
  handler :: pc

text \<open>One iteration of \<^verbatim>\<open>for i in range(1, 101)\<close>.\<close>

definition simulate_progress :: "nat \<Rightarrow> server \<Rightarrow> server" where
  "simulate_progress i s =
     s\<lparr>progress := i, advancer := (if i < 100 then Advancing (Suc i) else Finished)\<rparr>"

inductive step :: "env \<Rightarrow> upload list \<Rightarrow> server \<Rightarrow> server \<Rightarrow> bool"
  for env :: env and files :: "upload list" where
  reset:
    "handler s = AtReset \<Longrightarrow> step env files s (s\<lparr>progress := 0, handler := AtValidate\<rparr>)"
| no_files:
    "handler s = AtValidate \<Longrightarrow> files = [] \<Longrightarrow>
     step env files s (s\<lparr>handler := Returned no_files_uploaded\<rparr>)"
| start:
    "handler s = AtValidate \<Longrightarrow> files \<noteq> [] \<Longrightarrow>
     step env files s (s\<lparr>advancer := Advancing 1, handler := AtLoop\<rparr>)"
| loop_done:
    "handler s = AtLoop \<Longrightarrow> process_files env files (0, []) = Inr (n, results) \<Longrightarrow>
     step env files s (s\<lparr>handler := AtJoin results\<rparr>)"
| loop_raise:
    "handler s = AtLoop \<Longrightarrow> process_files env files (0, []) = Inl e \<Longrightarrow>
     step env files s (s\<lparr>handler := Returned (processing_failed e)\<rparr>)"
| join:
    "handler s = AtJoin results \<Longrightarrow> advancer s = Finished \<Longrightarrow>
     step env files s (s\<lparr>handler := Returned (respond results)\<rparr>)"
| advance:
    "advancer s = Advancing i \<Longrightarrow> step env files s (simulate_progress i s)"

text \<open>A request arrives at a server whose counter holds \<open>p\<close>, with no other
  request in flight and no advancing thread left alive.\<close>

definition arrival :: "nat \<Rightarrow> server" where
  "arrival p = \<lparr>progress = p, advancer = NotStarted, handler = AtReset\<rparr>"

text \<open>\<^verbatim>\<open>get_progress\<close>: \<^verbatim>\<open>return jsonify({"progress": progress})\<close>.\<close>

definition get_progress :: "server \<Rightarrow> response" where
  "get_progress s = \<lparr>status = 200, body = JDict [(''progress'', JInt (int (progress s)))]\<rparr>"

section \<open>What the handler is to compute\<close>

text \<open>The prompt \<^verbatim>\<open>process_image\<close> sends for an image.\<close>

definition build_prompt :: "env \<Rightarrow> bytes \<Rightarrow> prompt" where
  "build_prompt env image_data =
     \<lparr>instruction = extraction_instruction,
      inline_mime_type = from_buffer env image_data,
      inline_data = b64encode image_data\<rparr>"


text \<open>
  The items of a batch in processing order, each with the name its record is to
  carry: the members of an archive that are no directories, in the order of the
  archive's listing, at the place of the archive; every other upload under its
  lower-cased file name.
\<close>

fun entries_of :: "zip_info list \<Rightarrow> (string \<times> bytes) list" where
  "entries_of [] = []"
| "entries_of (zi # zis) =
     (if zi_is_dir zi then entries_of zis
      else case zi_read zi of
             Inl e \<Rightarrow> entries_of zis
           | Inr image_bytes \<Rightarrow> (zi_filename zi, image_bytes) # entries_of zis)"

fun items_of :: "env \<Rightarrow> upload list \<Rightarrow> (string \<times> bytes) list" where
  "items_of env [] = []"
| "items_of env (file # files) =
     (if suffix ''.zip'' (lower (fst file)) then
        (case zip_open env (snd file) of
           Inl e \<Rightarrow> []
         | Inr infolist \<Rightarrow> entries_of infolist)
      else [(lower (fst file), snd file)]) @ items_of env files"



text \<open>An item fails validation or parsing: the sniffed type is no image, or the
  model answers and no object is parsed from the answer.\<close>

definition item_fails :: "env \<Rightarrow> nat \<times> string \<times> bytes \<Rightarrow> bool" where
  "item_fails env item =
     (case item of (k, name, image_data) \<Rightarrow>
        \<not> prefix ''image/'' (from_buffer env image_data)
        \<or> (case generate_content env k (build_prompt env image_data) of
              Inl e \<Rightarrow> False
            | Inr reply \<Rightarrow> parse_json (json_loads env) reply = JNull))"

text \<open>Every archive of the batch opens and every member read from it is read
  without an error.\<close>

definition member_ok :: "zip_info \<Rightarrow> bool" where
  "member_ok zi = (zi_is_dir zi \<or> (case zi_read zi of Inl e \<Rightarrow> False | Inr b \<Rightarrow> True))"

definition archive_ok :: "env \<Rightarrow> upload \<Rightarrow> bool" where
  "archive_ok env file =
     (if suffix ''.zip'' (lower (fst file)) then
        (case zip_open env (snd file) of
           Inl e \<Rightarrow> False
         | Inr infolist \<Rightarrow> list_all member_ok infolist)
      else True)"

section \<open>Invariants of a single batch\<close>

text \<open>What the counter holds, given where the advancing thread is.\<close>

definition thread_inv :: "server \<Rightarrow> bool" where
  "thread_inv s =
     (case advancer s of
        NotStarted \<Rightarrow> progress s = 0
      | Advancing i \<Rightarrow> 1 \<le> i \<and> i \<le> 100 \<and> progress s = i - 1
      | Finished \<Rightarrow> progress s = 100)"

text \<open>Where the thread is and what the loop gave, given where the handler is, once
  the handler has made its first step.\<close>

definition handler_inv :: "env \<Rightarrow> upload list \<Rightarrow> server \<Rightarrow> bool" where
  "handler_inv env files s =
     (case handler s of
        AtReset \<Rightarrow> False
      | AtValidate \<Rightarrow> advancer s = NotStarted
      | AtLoop \<Rightarrow> files \<noteq> [] \<and> advancer s \<noteq> NotStarted
      | AtJoin rs \<Rightarrow>
          files \<noteq> [] \<and> advancer s \<noteq> NotStarted
          \<and> (\<exists>n. process_files env files (0, []) = Inr (n, rs))
      | Returned r \<Rightarrow>
          (files = [] \<and> r = no_files_uploaded \<and> advancer s = NotStarted)
          \<or> (files \<noteq> [] \<and> advancer s \<noteq> NotStarted
              \<and> (\<exists>e. process_files env files (0, []) = Inl e \<and> r = processing_failed e))
          \<or> (files \<noteq> [] \<and> advancer s = Finished
              \<and> (\<exists>n rs. process_files env files (0, []) = Inr (n, rs) \<and> r = respond rs)))"

section \<open>Inputs used to run the definitions\<close>

text \<open>A record as the extractor hands it to the normalizer: the model found no
  vendor, so the vendor's two fields are empty strings, and the record is stamped.\<close>

definition reply_record :: json where
  "reply_record =
     JDict [(''vendor'', JDict [(''name'', JStr []), (''company'', JStr [])]),
            (''invoice_no'', JStr ''A1''),
            (''timestamp'', JStr ''2025-01-01T00:00:00+00:00'')]"

text \<open>
  A decoder that knows finitely many texts stands for \<^verbatim>\<open>json.loads\<close> where
  the definitions are run: it decodes the texts of its table and raises on every
  other text.
\<close>

definition table_loads :: "(string \<times> json_object) list \<Rightarrow> string \<Rightarrow> json_object option" where
  "table_loads tbl s = map_of tbl s"

text \<open>An object whose one string holds a closing brace followed by three
  backquotes, its JSON text, and the reply that fences the text.\<close>

definition quoted_fence_object :: json_object where
  "quoted_fence_object = [(''note'', JStr ''}```'')]"

definition quoted_fence_text :: string where
  \<open>quoted_fence_text = ''{"note": "}```"}''\<close>

definition quoted_fence_reply :: string where
  "quoted_fence_reply = ''```json'' @ [CHR 0x0A] @ quoted_fence_text @ [CHR 0x0A] @ ''```''"

text \<open>The reply of the specification's scenario: invoice A1 with a zero subtotal.\<close>

definition a1_object :: json_object where
  "a1_object = [(''invoice_no'', JStr ''A1''), (''subtotal'', JInt 0)]"

definition a1_body :: string where
  \<open>a1_body = ''"invoice_no": "A1", "subtotal": 0''\<close>

definition a1_loads :: "string \<Rightarrow> json_object option" where
  "a1_loads = table_loads [(CHR ''{'' # a1_body @ [CHR ''}''], a1_object)]"

text \<open>A small world to run the handler in: a sniffer that knows the PNG and ZIP
  signatures, a model that answers every prompt with the fenced invoice A1, a
  fixed clock, and one archive with a directory, an image and a text file.\<close>

definition png_bytes :: bytes where
  "png_bytes = [0x89, 0x50, 0x4E, 0x47, 0x0D, 0x0A, 0x1A, 0x0A]"

definition text_bytes :: bytes where
  "text_bytes = [0x68, 0x65, 0x6C, 0x6C, 0x6F]"

definition zip_bytes :: bytes where
  "zip_bytes = [0x50, 0x4B, 0x03, 0x04]"

definition broken_zip_bytes :: bytes where
  "broken_zip_bytes = [0x6E, 0x6F]"

definition demo_sniff :: "bytes \<Rightarrow> string" where
  "demo_sniff b =
     (if prefix [0x89, 0x50, 0x4E, 0x47] b then ''image/png''
      else if prefix [0x50, 0x4B] b then ''application/zip''
      else ''text/plain'')"

definition a1_reply :: string where
  "a1_reply = ''```json'' @ [CHR 0x0A] @ CHR ''{'' # a1_body @ CHR ''}'' # [CHR 0x0A] @ ''```''"

definition demo_zip_open :: "bytes \<Rightarrow> exn + zip_info list" where
  "demo_zip_open b =
     (if b = zip_bytes then
        Inr [\<lparr>zi_filename = ''scans/'', zi_is_dir = True, zi_read = Inr []\<rparr>,
             \<lparr>zi_filename = ''scans/a.png'', zi_is_dir = False, zi_read = Inr png_bytes\<rparr>,
             \<lparr>zi_filename = ''scans/readme.txt'', zi_is_dir = False, zi_read = Inr text_bytes\<rparr>]
      else Inl ''File is not a zip file'')"

definition demo_now :: string where
  "demo_now = ''2025-01-01T00:00:00+00:00''"

definition demo_env :: env where
  "demo_env =
     \<lparr>from_buffer = demo_sniff,
      generate_content = (\<lambda>n p. Inr a1_reply),
      json_loads = a1_loads,
      utc_now = (\<lambda>n. demo_now),
      zip_open = demo_zip_open\<rparr>"

text \<open>The same world with the remote model out of service: every call raises.\<close>

definition outage_env :: env where
  "outage_env = demo_env\<lparr>generate_content := (\<lambda>n p. Inl ''503 Service Unavailable'')\<rparr>"

definition a1_record :: "string \<Rightarrow> json" where
  "a1_record name =
     JDict [(''invoice_no'', JStr ''A1''), (''timestamp'', JStr demo_now),
            (''filename'', JStr name)]"

text \<open>The state in which a request whose archive is refused has been answered: the
  thread has made its first store and sleeps.\<close>

definition failed_early :: server where
  "failed_early =
     \<lparr>progress = 1, advancer = Advancing 2,
      handler = Returned (processing_failed ''File is not a zip file'')\<rparr>"

section \<open>Properties of the field normalizer\<close>

lemma in_empties_simps:
  "in_empties (JBool b) = (\<not> b)"
  "in_empties (JInt n) = (n = 0)"
  "in_empties (JFloat f) = float_is_zero f"
  "in_empties JNull"
  "in_empties (JStr s) = (s = [])"
  "in_empties (JList xs) = (xs = [])"
  "in_empties (JDict d) = (d = [])"
  by (simp_all add: in_empties_def)

text \<open>What does hold of one pass: a value that is kept is cleaned into a value that
  is not empty, or into an empty list or mapping; and a value that satisfies the
  pruning law is left as it is.\<close>

lemma clean_empty_kept:
  "\<not> in_empties v \<Longrightarrow>
   \<not> in_empties (clean_empty v) \<or> clean_empty v = JList [] \<or> clean_empty v = JDict []"
  by (cases v) (simp_all add: in_empties_simps)

lemma pruned_dict_iff:
  "pruned (JDict d) \<longleftrightarrow> (\<forall>x \<in> set d. \<not> in_empties (snd x) \<and> pruned (snd x))"
  by (simp only: pruned.simps list_all_iff case_prod_unfold)

lemma pruned_list_iff:
  "pruned (JList d) \<longleftrightarrow> (\<forall>x \<in> set d. \<not> in_empties x \<and> pruned x)"
  by (simp only: pruned.simps list_all_iff)

lemma clean_empty_pruned_fixed: "pruned v \<Longrightarrow> clean_empty v = v"
proof (induction v)
  case (JList d)
  from JList.prems have all: "\<forall>x \<in> set d. \<not> in_empties x \<and> pruned x"
    by (simp only: pruned_list_iff)
  then have keep: "filter (\<lambda>i. \<not> in_empties i) d = d"
    by (intro filter_True) blast
  have same: "map clean_empty d = d"
  proof (rule map_idI)
    fix x assume "x \<in> set d"
    with all JList.IH show "clean_empty x = x" by blast
  qed
  show ?case by (simp only: clean_empty.simps keep same)
next
  case (JDict d)
  from JDict.prems have all: "\<forall>x \<in> set d. \<not> in_empties (snd x) \<and> pruned (snd x)"
    by (simp only: pruned_dict_iff)
  then have keep: "filter (\<lambda>(k, v). \<not> in_empties v) d = d"
    by (intro filter_True) (simp add: split_beta)
  have same: "map (\<lambda>(k, v). (k, clean_empty v)) d = d"
  proof (rule map_idI)
    fix x assume x: "x \<in> set d"
    with all have "pruned (snd x)" by blast
    moreover have "snd x \<in> Basic_BNFs.snds x" by (cases x) simp
    ultimately have "clean_empty (snd x) = snd x" using JDict.IH [OF x] by blast
    then show "(case x of (k, v) \<Rightarrow> (k, clean_empty v)) = x" by (cases x) simp
  qed
  show ?case by (simp only: clean_empty.simps keep same)
qed simp_all

text \<open>
  C1. The claim: every key of the normalizer's output, at every depth, has a value
  that is not the empty string, null, the empty list, the empty mapping or zero,
  because a key is pruned when its normalized value is empty. The code tests the
  value before it is cleaned: on the record whose vendor has two empty fields the
  vendor is kept, cleaned to the empty mapping, and the output is not pruned.
\<close>

theorem clean_empty_keeps_emptied_value:
  "clean_empty reply_record
     = JDict [(''vendor'', JDict []), (''invoice_no'', JStr ''A1''),
              (''timestamp'', JStr ''2025-01-01T00:00:00+00:00'')]
   \<and> \<not> pruned (clean_empty reply_record)"
  by (simp add: reply_record_def in_empties_simps)

text \<open>
  C2. The claim: normalizing twice gives what normalizing once gives. On the same
  record the first pass leaves the vendor as an empty mapping and the second pass
  removes it, so the two results differ.
\<close>

theorem clean_empty_twice_differs:
  "clean_empty (clean_empty reply_record)
     = JDict [(''invoice_no'', JStr ''A1''),
              (''timestamp'', JStr ''2025-01-01T00:00:00+00:00'')]
   \<and> clean_empty (clean_empty reply_record) \<noteq> clean_empty reply_record"
  by (simp add: reply_record_def in_empties_simps)

text \<open>
  C9. The emptiness test is equality with 0, so in every sequence and in every
  mapping the boolean false and a float zero are pruned exactly as the integer 0
  is: putting any of the three at a place gives the result of leaving the place
  out. The boolean true stays where it is, unchanged.
\<close>

theorem clean_empty_false_and_float_zero:
  "clean_empty (JList (xs @ JBool False # ys)) = clean_empty (JList (xs @ JInt 0 # ys))
   \<and> clean_empty (JList (xs @ JFloat (PyFloat s 0 e) # ys)) = clean_empty (JList (xs @ JInt 0 # ys))
   \<and> clean_empty (JList (xs @ JInt 0 # ys)) = clean_empty (JList (xs @ ys))
   \<and> clean_empty (JDict (d @ (k, JBool False) # d')) = clean_empty (JDict (d @ (k, JInt 0) # d'))
   \<and> clean_empty (JDict (d @ (k, JFloat (PyFloat s 0 e)) # d')) = clean_empty (JDict (d @ (k, JInt 0) # d'))
   \<and> clean_empty (JDict (d @ (k, JInt 0) # d')) = clean_empty (JDict (d @ d'))
   \<and> (\<exists>xs' ys'. clean_empty (JList xs) = JList xs' \<and> clean_empty (JList ys) = JList ys'
        \<and> clean_empty (JList (xs @ JBool True # ys)) = JList (xs' @ JBool True # ys'))
   \<and> (\<exists>c c'. clean_empty (JDict d) = JDict c \<and> clean_empty (JDict d') = JDict c'
        \<and> clean_empty (JDict (d @ (k, JBool True) # d')) = JDict (c @ (k, JBool True) # c'))"
  by (simp add: in_empties_simps)

theorem clean_empty_false_and_float_zero_witness:
  "clean_empty (JList [JInt 7, JBool False, JStr ''x'']) = JList [JInt 7, JStr ''x'']
   \<and> clean_empty (JList [JInt 7, JFloat (PyFloat False 0 0), JStr ''x'']) = JList [JInt 7, JStr ''x'']
   \<and> clean_empty (JDict [(''paid'', JBool False), (''n'', JInt 2)]) = JDict [(''n'', JInt 2)]
   \<and> clean_empty (JDict [(''paid'', JBool True), (''n'', JInt 2)])
       = JDict [(''paid'', JBool True), (''n'', JInt 2)]"
  using clean_empty_false_and_float_zero
    [of "[JInt 7]" "[JStr ''x'']" False 0 "[]" "''paid''" "[(''n'', JInt 2)]"]
  by (simp add: in_empties_simps)

section \<open>Properties of the response parser\<close>

lemma not_space_simps [simp]:
  "\<not> is_space CHR ''}''" "\<not> is_space CHR ''{''" "\<not> is_space CHR ''`''"
  by (simp_all add: is_space_def)

lemma dropWhile_space_append:
  "list_all is_space ws \<Longrightarrow> \<not> is_space c \<Longrightarrow> dropWhile is_space (ws @ c # r) = c # r"
  by (induction ws) auto

text \<open>Inside a text without three backquotes in a row, no closing brace is
  followed by white space and a fence: the lazy star cannot stop early.\<close>

lemma no_fence_after_body:
  "\<not> sublist ''```'' b \<Longrightarrow> \<not> prefix ''```'' (dropWhile is_space (b @ CHR ''}'' # r))"
proof (induction b)
  case Nil
  then show ?case by simp
next
  case (Cons c b)
  show ?case
  proof (cases "is_space c")
    case True
    with Cons show ?thesis by (simp add: sublist_Cons_right)
  next
    case False
    from Cons.prems have np: "\<not> prefix ''```'' (c # b)"
      by (simp add: sublist_Cons_right)
    have "\<not> prefix ''```'' (c # b @ CHR ''}'' # r)"
    proof (cases b)
      case Nil
      then show ?thesis by simp
    next
      case (Cons x b')
      note b1 = this
      show ?thesis
      proof (cases b')
        case Nil
        with b1 show ?thesis by simp
      next
        case (Cons y b'')
        with b1 np show ?thesis by simp
      qed
    qed
    with False show ?thesis by simp
  qed
qed

lemma lazy_body_closing:
  "\<not> sublist ''```'' b \<Longrightarrow> list_all is_space ws \<Longrightarrow>
   lazy_body (b @ CHR ''}'' # ws @ ''```'' @ post) = Some (b @ [CHR ''}''])"
proof (induction b)
  case Nil
  have "dropWhile is_space (ws @ CHR ''`'' # ''``'' @ post) = CHR ''`'' # ''``'' @ post"
    using Nil.prems(2) by (intro dropWhile_space_append) simp_all
  then show ?case by simp
next
  case (Cons c b)
  from Cons.prems have nb: "\<not> sublist ''```'' b"
    by (simp add: sublist_Cons_right)
  have "\<not> prefix ''```'' (dropWhile is_space (b @ CHR ''}'' # ws @ ''```'' @ post))"
    using nb by (rule no_fence_after_body)
  with Cons.IH [OF nb Cons.prems(2)] show ?case by simp
qed

lemma fenced_at_fence:
  assumes "\<not> sublist ''```'' b" "list_all is_space ws1" "list_all is_space ws2"
  shows "fenced_at (''```json'' @ ws1 @ CHR ''{'' # b @ CHR ''}'' # ws2 @ ''```'' @ post)
         = Some (CHR ''{'' # b @ [CHR ''}''])"
proof -
  have "dropWhile is_space (ws1 @ CHR ''{'' # b @ CHR ''}'' # ws2 @ ''```'' @ post)
        = CHR ''{'' # b @ CHR ''}'' # ws2 @ ''```'' @ post"
    using assms(2) by (intro dropWhile_space_append) simp_all
  then show ?thesis
    using lazy_body_closing [OF assms(1) assms(3), of post]
    by (simp add: fenced_at_def)
qed

lemma re_search_hit: "m t = Some g \<Longrightarrow> re_search m t = Some g"
  by (cases t) simp_all

lemma re_search_skip:
  "(\<And>c r. c \<in> set pre \<Longrightarrow> m (c # r) = None) \<Longrightarrow> re_search m (pre @ t) = re_search m t"
  by (induction pre) simp_all

lemma fenced_at_needs_backquote: "c \<noteq> CHR ''`'' \<Longrightarrow> fenced_at (c # r) = None"
  by (simp add: fenced_at_def)

lemma braces_at_needs_brace: "c \<noteq> CHR ''{'' \<Longrightarrow> braces_at (c # r) = None"
  by (simp add: braces_at_def)

lemma braces_at_span:
  assumes "CHR ''}'' \<notin> set post"
  shows "braces_at (CHR ''{'' # b @ CHR ''}'' # post) = Some (CHR ''{'' # b @ [CHR ''}''])"
proof -
  from assms
  have "dropWhile (\<lambda>x. x \<noteq> CHR ''}'') (rev post @ CHR ''}'' # rev b) = CHR ''}'' # rev b"
    by (subst dropWhile_append2) auto
  then show ?thesis by (simp add: braces_at_def)
qed

lemma parse_json_cases:
  "parse_json loads reply = JNull \<or> (\<exists>obj. parse_json loads reply = JDict obj)"
  by (auto simp: parse_json_def Let_def split: option.splits)

text \<open>
  C4, as amended. Let the text \<open>{b}\<close> decode to the object \<open>J\<close>.
  \<^item> Fenced: when the reply is the text inside a fence tagged json, the fence and
    the text separated by white space only, no backquote before the fence, and
    the text holds no three backquotes in a row, the parser returns \<open>J\<close>.
  \<^item> Unfenced: when the reply does not contain the tag, has no opening brace
    before the text and no closing brace after it, the parser returns \<open>J\<close>.
\<close>

theorem parse_json_round_trip:
  assumes "loads (CHR ''{'' # b @ [CHR ''}'']) = Some J"
  shows "(CHR ''`'' \<notin> set pre \<and> \<not> sublist ''```'' b
            \<and> list_all is_space ws1 \<and> list_all is_space ws2 \<longrightarrow>
          parse_json loads
            (pre @ ''```json'' @ ws1 @ CHR ''{'' # b @ CHR ''}'' # ws2 @ ''```'' @ post)
          = JDict J)
       \<and> (\<not> sublist ''```json'' (before @ CHR ''{'' # b @ CHR ''}'' # after)
            \<and> CHR ''{'' \<notin> set before \<and> CHR ''}'' \<notin> set after \<longrightarrow>
          parse_json loads (before @ CHR ''{'' # b @ CHR ''}'' # after) = JDict J)"
proof (intro conjI impI)
  assume "CHR ''`'' \<notin> set pre \<and> \<not> sublist ''```'' b
    \<and> list_all is_space ws1 \<and> list_all is_space ws2"
  then have pre: "CHR ''`'' \<notin> set pre" and b: "\<not> sublist ''```'' b"
    and ws: "list_all is_space ws1" "list_all is_space ws2"
    by simp_all
  let ?fence = "''```json'' @ ws1 @ CHR ''{'' # b @ CHR ''}'' # ws2 @ ''```'' @ post"
  have tagged: "sublist ''```json'' (pre @ ?fence)"
    by (rule sublist_appendI)
  have "re_search fenced_at (pre @ ?fence) = re_search fenced_at ?fence"
    using pre by (intro re_search_skip fenced_at_needs_backquote) auto
  also have "\<dots> = Some (CHR ''{'' # b @ [CHR ''}''])"
    by (intro re_search_hit fenced_at_fence b ws)
  finally show "parse_json loads (pre @ ?fence) = JDict J"
    using tagged assms by (simp add: parse_json_def)
next
  assume "\<not> sublist ''```json'' (before @ CHR ''{'' # b @ CHR ''}'' # after)
    \<and> CHR ''{'' \<notin> set before \<and> CHR ''}'' \<notin> set after"
  then have plain: "\<not> sublist ''```json'' (before @ CHR ''{'' # b @ CHR ''}'' # after)"
    and pre: "CHR ''{'' \<notin> set before" and post: "CHR ''}'' \<notin> set after"
    by simp_all
  let ?t = "CHR ''{'' # b @ CHR ''}'' # after"
  have "re_search braces_at (before @ ?t) = re_search braces_at ?t"
    using pre by (intro re_search_skip braces_at_needs_brace) auto
  also have "\<dots> = Some (CHR ''{'' # b @ [CHR ''}''])"
    by (intro re_search_hit braces_at_span post)
  finally show "parse_json loads (before @ ?t) = JDict J"
    using plain assms by (simp add: parse_json_def)
qed

theorem parse_json_round_trip_witness:
  "parse_json a1_loads
     (''Here is the data: ```json'' @ [CHR 0x0A] @ CHR ''{'' # a1_body @ CHR ''}'' # [CHR 0x0A]
        @ ''```'' @ '' Done.'')
   = JDict a1_object
   \<and> parse_json a1_loads (''Result: '' @ CHR ''{'' # a1_body @ CHR ''}'' # '' (end)'')
     = JDict a1_object"
proof -
  have dec: "a1_loads (CHR ''{'' # a1_body @ [CHR ''}'']) = Some a1_object"
    by (simp add: a1_loads_def table_loads_def)
  have fenced: "CHR ''`'' \<notin> set ''Here is the data: '' \<and> \<not> sublist ''```'' a1_body
      \<and> list_all is_space [CHR 0x0A] \<and> list_all is_space [CHR 0x0A]"
    by (simp add: a1_body_def is_space_def sublist_Cons_right)
  have plain: "\<not> sublist ''```json'' (''Result: '' @ CHR ''{'' # a1_body @ CHR ''}'' # '' (end)'')
      \<and> CHR ''{'' \<notin> set ''Result: '' \<and> CHR ''}'' \<notin> set '' (end)''"
    by (simp add: a1_body_def sublist_Cons_right)
  from parse_json_round_trip
    [where loads = a1_loads and b = a1_body and J = a1_object
       and pre = "''Here is the data: ''" and ?ws1.0 = "[CHR 0x0A]" and ?ws2.0 = "[CHR 0x0A]"
       and post = "'' Done.''" and before = "''Result: ''" and after = "'' (end)''", OF dec]
    fenced plain
  show ?thesis by simp
qed

text \<open>
  The claim C4 as it is written fails on a fenced reply: the object decodes, but
  its text holds a closing brace followed by three backquotes inside a string, the
  lazy match stops there, the span cut short does not decode, and the parser
  returns null.
\<close>

theorem parse_json_fenced_counterexample:
  "table_loads [(quoted_fence_text, quoted_fence_object)] quoted_fence_text
     = Some quoted_fence_object
   \<and> parse_json (table_loads [(quoted_fence_text, quoted_fence_object)]) quoted_fence_reply
     = JNull"
  by (simp add: table_loads_def quoted_fence_text_def quoted_fence_reply_def parse_json_def
      fenced_at_def is_space_def)

section \<open>Running the definitions in the small world\<close>

lemma demo_parse: "parse_json a1_loads a1_reply = JDict a1_object"
  by (simp add: a1_reply_def a1_loads_def a1_body_def table_loads_def parse_json_def
      fenced_at_def is_space_def)

lemma demo_png:
  "process_image demo_env n png_bytes
   = Inr (JDict [(''invoice_no'', JStr ''A1''), (''timestamp'', JStr demo_now)])"
  by (simp add: process_image_def demo_env_def demo_sniff_def png_bytes_def demo_parse
      a1_object_def in_empties_def demo_now_def)


lemma outage_png: "process_image outage_env n png_bytes = Inl ''503 Service Unavailable''"
  by (simp add: process_image_def outage_env_def demo_env_def demo_sniff_def png_bytes_def)

lemma add_a1:
  "add_result (JDict [(''invoice_no'', JStr ''A1''), (''timestamp'', JStr demo_now)]) name rs
   = Inr (rs @ [a1_record name])"
  by (simp add: add_result_def a1_record_def)


lemma lower_names:
  "lower ''Scan.PNG'' = ''scan.png''"
  "lower ''notes.txt'' = ''notes.txt''"
  "lower ''Batch.ZIP'' = ''batch.zip''"
  "lower ''B.png'' = ''b.png''"
  "lower ''a.png'' = ''a.png''"
  by (simp_all add: lower_def lower_char_def char_of_def bit_Suc_0_iff)


lemma demo_broken_zip: "zip_open demo_env broken_zip_bytes = Inl ''File is not a zip file''"
  by (simp add: demo_env_def demo_zip_open_def zip_bytes_def broken_zip_bytes_def)





section \<open>Properties of the item extractor\<close>

text \<open>
  C3, as amended. For every input: the extractor returns null when the sniffed type
  is no image, without calling the model; when the model answers, it returns null
  if no object is parsed from the answer, and otherwise the parsed object stamped
  and normalized (the empty object as it is), and it raises nothing; it raises
  exactly when the type is an image and the remote call raises, and then with the
  remote call's exception.
\<close>

theorem process_image_outcomes:
  "(\<not> prefix ''image/'' (from_buffer env d) \<longrightarrow> process_image env n d = Inr JNull)
   \<and> (prefix ''image/'' (from_buffer env d)
        \<and> generate_content env n (build_prompt env d) = Inr reply \<longrightarrow>
       (parse_json (json_loads env) reply = JNull \<longrightarrow> process_image env n d = Inr JNull)
       \<and> (\<forall>obj. parse_json (json_loads env) reply = JDict obj \<longrightarrow>
             process_image env n d
             = Inr (if obj = [] then JDict []
                    else clean_empty (JDict (AList.update ''timestamp'' (JStr (utc_now env n)) obj))))
       \<and> (\<exists>r. process_image env n d = Inr r
              \<and> (r = JNull \<or> (\<exists>obj. r = clean_empty (JDict obj)))))
   \<and> (process_image env n d = Inl e
        \<longleftrightarrow> prefix ''image/'' (from_buffer env d)
            \<and> generate_content env n (build_prompt env d) = Inl e)"
proof (intro conjI allI impI)
  assume "\<not> prefix ''image/'' (from_buffer env d)"
  then show "process_image env n d = Inr JNull"
    by (simp add: process_image_def)
next
  assume a: "prefix ''image/'' (from_buffer env d)
    \<and> generate_content env n (build_prompt env d) = Inr reply"
  assume "parse_json (json_loads env) reply = JNull"
  with a show "process_image env n d = Inr JNull"
    by (simp add: process_image_def build_prompt_def)
next
  fix obj
  assume a: "prefix ''image/'' (from_buffer env d)
    \<and> generate_content env n (build_prompt env d) = Inr reply"
  assume "parse_json (json_loads env) reply = JDict obj"
  with a show "process_image env n d
      = Inr (if obj = [] then JDict []
             else clean_empty (JDict (AList.update ''timestamp'' (JStr (utc_now env n)) obj)))"
    by (simp add: process_image_def build_prompt_def)
next
  assume a: "prefix ''image/'' (from_buffer env d)
    \<and> generate_content env n (build_prompt env d) = Inr reply"
  from parse_json_cases [of "json_loads env" reply]
  show "\<exists>r. process_image env n d = Inr r \<and> (r = JNull \<or> (\<exists>obj. r = clean_empty (JDict obj)))"
  proof
    assume "parse_json (json_loads env) reply = JNull"
    with a show ?thesis by (simp add: process_image_def build_prompt_def)
  next
    assume "\<exists>obj. parse_json (json_loads env) reply = JDict obj"
    then obtain obj where obj: "parse_json (json_loads env) reply = JDict obj" ..
    show ?thesis
    proof (cases "obj = []")
      case True
      with a obj have "process_image env n d = Inr (JDict [])"
        by (simp add: process_image_def build_prompt_def)
      moreover have "JDict [] = clean_empty (JDict [])" by simp
      ultimately show ?thesis by blast
    next
      case False
      with a obj have "process_image env n d
          = Inr (clean_empty (JDict (AList.update ''timestamp'' (JStr (utc_now env n)) obj)))"
        by (simp add: process_image_def build_prompt_def)
      then show ?thesis by blast
    qed
  qed
next
  show "process_image env n d = Inl e
         \<longleftrightarrow> prefix ''image/'' (from_buffer env d)
             \<and> generate_content env n (build_prompt env d) = Inl e"
  proof (cases "prefix ''image/'' (from_buffer env d)")
    case False
    then show ?thesis by (simp add: process_image_def)
  next
    case True
    show ?thesis
    proof (cases "generate_content env n (build_prompt env d)")
      case (Inl e')
      with True show ?thesis by (simp add: process_image_def build_prompt_def)
    next
      case (Inr reply')
      from parse_json_cases [of "json_loads env" reply'] True Inr
      show ?thesis
        by (auto simp: process_image_def build_prompt_def Let_def)
    qed
  qed
qed

theorem process_image_outcomes_witness:
  "process_image demo_env 0 text_bytes = Inr JNull
   \<and> process_image demo_env 0 png_bytes
     = Inr (JDict [(''invoice_no'', JStr ''A1''), (''timestamp'', JStr demo_now)])"
proof -
  have sniff: "\<not> prefix ''image/'' (from_buffer demo_env text_bytes)"
    by (simp add: demo_env_def demo_sniff_def text_bytes_def)
  have img: "prefix ''image/'' (from_buffer demo_env png_bytes)
      \<and> generate_content demo_env 0 (build_prompt demo_env png_bytes) = Inr a1_reply"
    by (simp add: demo_env_def demo_sniff_def png_bytes_def)
  have parsed: "parse_json (json_loads demo_env) a1_reply = JDict a1_object"
    using demo_parse by (simp add: demo_env_def)
  from process_image_outcomes [of demo_env text_bytes 0] sniff
  have "process_image demo_env 0 text_bytes = Inr JNull" by blast
  moreover
  from process_image_outcomes [of demo_env png_bytes 0 a1_reply] img parsed
  have "process_image demo_env 0 png_bytes
      = Inr (if a1_object = [] then JDict []
             else clean_empty (JDict (AList.update ''timestamp'' (JStr (utc_now demo_env 0)) a1_object)))"
    by blast
  ultimately show ?thesis
    by (simp add: a1_object_def demo_env_def in_empties_def demo_now_def)
qed

text \<open>
  The claim C3 as it is written fails where it says that no exception escapes: the
  bytes are an image, the remote call raises, and the extractor raises with it.
\<close>

theorem process_image_remote_counterexample:
  "process_image outage_env 0 png_bytes = Inl ''503 Service Unavailable''"
  by (rule outage_png)

section \<open>Properties of the batch orchestrator\<close>

subsection \<open>The loops compute the records of the items, in order\<close>












subsection \<open>A batch without a valid image\<close>

lemma item_fails_null:
  "item_fails env (k, name, image_data) \<Longrightarrow> process_image env k image_data = Inr JNull"
  by (auto simp: item_fails_def process_image_def build_prompt_def Let_def split: sum.splits)

lemma process_entries_all_fail:
  "list_all member_ok zis \<Longrightarrow>
   list_all (item_fails env) (List.enumerate n (entries_of zis)) \<Longrightarrow>
   process_entries env zis (n, acc) = Inr (n + length (entries_of zis), acc)"
proof (induction zis arbitrary: n)
  case Nil
  then show ?case by simp
next
  case (Cons zi zis)
  show ?case
  proof (cases "zi_is_dir zi")
    case True
    with Cons show ?thesis by simp
  next
    case False
    with Cons.prems(1) obtain image_bytes where rd: "zi_read zi = Inr image_bytes"
      by (auto simp: member_ok_def split: sum.splits)
    with False Cons.prems(2) have
      fails: "item_fails env (n, zi_filename zi, image_bytes)"
      and rest: "list_all (item_fails env) (List.enumerate (Suc n) (entries_of zis))"
      by simp_all
    from Cons.prems(1) have "list_all member_ok zis" by simp
    from Cons.IH [OF this rest] item_fails_null [OF fails] False rd
    show ?thesis by (simp add: add_result_def)
  qed
qed

lemma process_files_all_fail:
  "list_all (archive_ok env) files \<Longrightarrow>
   list_all (item_fails env) (List.enumerate n (items_of env files)) \<Longrightarrow>
   process_files env files (n, acc) = Inr (n + length (items_of env files), acc)"
proof (induction files arbitrary: n)
  case Nil
  then show ?case by simp
next
  case (Cons f fs)
  from Cons.prems(1) have ok: "archive_ok env f" and oks: "list_all (archive_ok env) fs"
    by simp_all
  show ?case
  proof (cases "suffix ''.zip'' (lower (fst f))")
    case True
    with ok obtain infolist where zo: "zip_open env (snd f) = Inr infolist"
      and members: "list_all member_ok infolist"
      by (auto simp: archive_ok_def split: sum.splits)
    from Cons.prems(2) True zo have
      inner: "list_all (item_fails env) (List.enumerate n (entries_of infolist))"
      and rest: "list_all (item_fails env)
          (List.enumerate (n + length (entries_of infolist)) (items_of env fs))"
      by (simp_all add: enumerate_append_eq)
    from process_entries_all_fail [OF members inner, of acc] Cons.IH [OF oks rest] True zo
    show ?thesis by (simp add: Let_def)
  next
    case False
    with Cons.prems(2) have
      fails: "item_fails env (n, lower (fst f), snd f)"
      and rest: "list_all (item_fails env) (List.enumerate (Suc n) (items_of env fs))"
      by simp_all
    from Cons.IH [OF oks rest] item_fails_null [OF fails] False
    show ?thesis by (simp add: Let_def add_result_def)
  qed
qed

text \<open>
  C6. A request with at least one file, whose archives all open and read, and in
  which every item fails MIME validation or parsing, is answered 400 with the body
  \<open>{"error": "No valid images found to process"}\<close>. The request without a file is
  answered 400 with \<open>{"error": "No files uploaded"}\<close> whatever the collaborators
  would do, since nothing is processed before the test; the two responses differ.
\<close>

theorem upload_image_no_valid_images:
  assumes "files \<noteq> []"
    and "list_all (archive_ok env) files"
    and "list_all (item_fails env) (List.enumerate 0 (items_of env files))"
  shows "upload_image env files = no_valid_images
     \<and> no_valid_images
       = \<lparr>status = 400, body = JDict [(''error'', JStr ''No valid images found to process'')]\<rparr>
     \<and> upload_image env' [] = no_files_uploaded
     \<and> no_files_uploaded = \<lparr>status = 400, body = JDict [(''error'', JStr ''No files uploaded'')]\<rparr>
     \<and> no_valid_images \<noteq> no_files_uploaded"
proof -
  from process_files_all_fail [OF assms(2) assms(3), of "[]"] assms(1)
  have "upload_image env files = no_valid_images"
    by (simp add: upload_image_def respond_def)
  then show ?thesis
    by (simp add: upload_image_def no_valid_images_def no_files_uploaded_def)
qed

theorem upload_image_no_valid_images_witness:
  "upload_image demo_env [(''notes.txt'', text_bytes)] = no_valid_images
   \<and> upload_image outage_env [] = no_files_uploaded"
proof -
  have files: "[(''notes.txt'', text_bytes)] \<noteq> []" by simp
  have ok: "list_all (archive_ok demo_env) [(''notes.txt'', text_bytes)]"
    by (simp add: archive_ok_def lower_names suffix_to_prefix)
  have fails: "list_all (item_fails demo_env)
      (List.enumerate 0 (items_of demo_env [(''notes.txt'', text_bytes)]))"
    by (simp add: lower_names suffix_to_prefix item_fails_def demo_env_def demo_sniff_def
        text_bytes_def)
  from upload_image_no_valid_images [OF files ok fails, of outage_env]
  show ?thesis by simp
qed

subsection \<open>A corrupt archive\<close>

lemma process_files_append:
  "process_files env (pre @ fs) st
   = (case process_files env pre st of Inl e \<Rightarrow> Inl e | Inr st' \<Rightarrow> process_files env fs st')"
proof (induction pre arbitrary: st)
  case Nil
  then show ?case by simp
next
  case (Cons f pre)
  obtain n acc where st: "st = (n, acc)" by (cases st)
  show ?case
    unfolding st append_Cons process_files.simps
    by (simp add: Cons.IH Let_def split: sum.splits)
qed

lemma process_files_corrupt:
  "suffix ''.zip'' (lower name) \<Longrightarrow> zip_open env zbytes = Inl msg \<Longrightarrow>
   process_files env ((name, zbytes) # post) st = Inl msg"
  by (cases st) (simp add: Let_def)

text \<open>
  C7. When an upload of the batch has a name ending in \<open>.zip\<close> in any case and
  bytes that the archive reader refuses, the request is answered 500 with the body
  \<open>{"error": "Invoice processing failed: m"}\<close> and with no list of invoices; \<open>m\<close>
  is the reader's message whenever the uploads before the archive were processed
  without an exception.
\<close>

theorem upload_image_corrupt_zip:
  assumes "suffix ''.zip'' (lower name)" and "zip_open env zbytes = Inl msg"
  shows "\<exists>m. upload_image env (pre @ (name, zbytes) # post)
            = \<lparr>status = 500,
               body = JDict [(''error'', JStr (''Invoice processing failed: '' @ m))]\<rparr>
          \<and> (\<forall>st. process_files env pre (0, []) = Inr st \<longrightarrow> m = msg)
          \<and> (\<forall>rs. upload_image env (pre @ (name, zbytes) # post) \<noteq> invoices rs)"
proof (cases "process_files env pre (0, [])")
  case (Inl e)
  then have "upload_image env (pre @ (name, zbytes) # post) = processing_failed e"
    by (simp add: upload_image_def process_files_append)
  with Inl show ?thesis
    by (simp add: processing_failed_def invoices_def)
next
  case (Inr st)
  with process_files_corrupt [OF assms, of post st]
  have "upload_image env (pre @ (name, zbytes) # post) = processing_failed msg"
    by (simp add: upload_image_def process_files_append)
  with Inr show ?thesis
    by (simp add: processing_failed_def invoices_def)
qed

theorem upload_image_corrupt_zip_witness:
  "upload_image demo_env [(''Scan.PNG'', png_bytes), (''Batch.ZIP'', broken_zip_bytes)]
   = \<lparr>status = 500,
      body = JDict [(''error'', JStr ''Invoice processing failed: File is not a zip file'')]\<rparr>"
proof -
  have name: "suffix ''.zip'' (lower ''Batch.ZIP'')"
    by (simp add: lower_names suffix_to_prefix)
  have before: "process_files demo_env [(''Scan.PNG'', png_bytes)] (0, [])
      = Inr (1, [a1_record ''scan.png''])"
    by (simp add: Let_def suffix_to_prefix lower_names demo_png add_a1)
  from upload_image_corrupt_zip
    [OF name demo_broken_zip, of "[(''Scan.PNG'', png_bytes)]" "[]"] before
  show ?thesis by auto
qed

section \<open>Properties of the progress tracker\<close>

lemma step_from_arrival:
  "step env files (arrival p) t
   \<longleftrightarrow> t = \<lparr>progress = 0, advancer = NotStarted, handler = AtValidate\<rparr>"
  by (auto simp: step.simps arrival_def)

lemma inv_after_reset:
  "thread_inv \<lparr>progress = 0, advancer = NotStarted, handler = AtValidate\<rparr>"
  "handler_inv env files \<lparr>progress = 0, advancer = NotStarted, handler = AtValidate\<rparr>"
  by (simp_all add: thread_inv_def handler_inv_def)

lemma thread_inv_handler [simp]: "thread_inv (s\<lparr>handler := h\<rparr>) = thread_inv s"
  by (cases "advancer s") (simp_all add: thread_inv_def)

lemma thread_inv_step:
  assumes "step env files s t" and "thread_inv s" and "handler_inv env files s"
  shows "thread_inv t"
  using assms(1)
proof (cases rule: step.cases)
  case reset
  with assms(3) show ?thesis by (simp add: handler_inv_def)
next
  case no_files
  with assms(2) show ?thesis by simp
next
  case start
  with assms(2,3) show ?thesis
    by (simp add: thread_inv_def handler_inv_def)
next
  case (loop_done n results)
  with assms(2) show ?thesis by simp
next
  case (loop_raise e)
  with assms(2) show ?thesis by simp
next
  case (join results)
  with assms(2) show ?thesis by simp
next
  case (advance i)
  with assms(2) show ?thesis
    by (simp add: thread_inv_def simulate_progress_def)
qed

lemma handler_inv_step:
  assumes "step env files s t" and "thread_inv s" and "handler_inv env files s"
  shows "handler_inv env files t"
  using assms(1)
proof (cases rule: step.cases)
  case reset
  with assms(3) show ?thesis by (simp add: handler_inv_def)
next
  case no_files
  with assms(3) show ?thesis by (simp add: handler_inv_def)
next
  case start
  then show ?thesis by (simp add: handler_inv_def)
next
  case (loop_done n results)
  with assms(3) show ?thesis by (simp add: handler_inv_def)
next
  case (loop_raise e)
  with assms(3) show ?thesis by (simp add: handler_inv_def)
next
  case (join results)
  with assms(3) show ?thesis by (auto simp: handler_inv_def)
next
  case (advance i)
  have "handler (simulate_progress i s) = handler s"
    and "advancer (simulate_progress i s) \<noteq> NotStarted"
    by (simp_all add: simulate_progress_def)
  with advance assms(3) show ?thesis
    by (cases "handler s") (simp_all add: handler_inv_def)
qed

lemma progress_step:
  assumes "step env files s t" and "thread_inv s" and "handler_inv env files s"
  shows "progress s \<le> progress t"
  using assms(1)
proof (cases rule: step.cases)
  case reset
  with assms(3) show ?thesis by (simp add: handler_inv_def)
next
  case (advance i)
  with assms(2) show ?thesis
    by (simp add: thread_inv_def simulate_progress_def)
qed simp_all

lemma thread_inv_bound: "thread_inv s \<Longrightarrow> progress s \<le> 100"
  by (auto simp: thread_inv_def split: thread.splits)

lemma steps_inv:
  assumes "(step env files)\<^sup>*\<^sup>* s t" and "thread_inv s" and "handler_inv env files s"
  shows "thread_inv t \<and> handler_inv env files t \<and> progress s \<le> progress t"
  using assms
proof (induction rule: rtranclp_induct)
  case base
  then show ?case by simp
next
  case (step t u)
  then have inv: "thread_inv t" "handler_inv env files t" and le: "progress s \<le> progress t"
    by simp_all
  from thread_inv_step [OF step.hyps(2) inv] handler_inv_step [OF step.hyps(2) inv]
    progress_step [OF step.hyps(2) inv] le
  show ?case by simp
qed

lemma reachable_inv:
  assumes "(step env files)\<^sup>*\<^sup>* (arrival p) t"
  shows "t = arrival p \<or> (thread_inv t \<and> handler_inv env files t)"
  using assms
proof (induction rule: rtranclp_induct)
  case base
  then show ?case by simp
next
  case (step t u)
  from step.IH show ?case
  proof
    assume "t = arrival p"
    with step.hyps(2) inv_after_reset(1) inv_after_reset(2) [of env files] show ?thesis
      by (simp add: step_from_arrival)
  next
    assume "thread_inv t \<and> handler_inv env files t"
    with thread_inv_step [OF step.hyps(2)] handler_inv_step [OF step.hyps(2)]
    show ?thesis by blast
  qed
qed

text \<open>The thread, once started, can always run to its end: from \<open>Advancing i\<close> the
  remaining stores are made and the counter stands at 100.\<close>

lemma advancer_simulate:
  "i < 100 \<Longrightarrow> advancer (simulate_progress i s) = Advancing (Suc i)"
  by (simp add: simulate_progress_def)

lemma simulate_then_finish:
  "(simulate_progress i s)\<lparr>progress := 100, advancer := Finished\<rparr>
   = s\<lparr>progress := 100, advancer := Finished\<rparr>"
  by (simp add: simulate_progress_def)

lemma simulate_last:
  "simulate_progress 100 s = s\<lparr>progress := 100, advancer := Finished\<rparr>"
  by (simp add: simulate_progress_def)

lemma advance_run:
  "advancer s = Advancing (100 - k) \<Longrightarrow> k < 100 \<Longrightarrow>
   (step env files)\<^sup>*\<^sup>* s (s\<lparr>progress := 100, advancer := Finished\<rparr>)"
proof (induction k arbitrary: s)
  case 0
  then have "advancer s = Advancing 100" by simp
  then have "step env files s (simulate_progress 100 s)" by (rule step.advance)
  then have "step env files s (s\<lparr>progress := 100, advancer := Finished\<rparr>)"
    by (simp only: simulate_last)
  then show ?case by (rule r_into_rtranclp)
next
  case (Suc k)
  let ?i = "100 - Suc k"
  let ?t = "simulate_progress ?i s"
  from Suc.prems(1) have st: "step env files s ?t" by (rule step.advance)
  from Suc.prems(2) have lt: "?i < 100" and nxt: "Suc ?i = 100 - k" by arith+
  from advancer_simulate [OF lt, of s] nxt
  have adv: "advancer ?t = Advancing (100 - k)" by (simp only:)
  from Suc.prems(2) have "k < 100" by simp
  from Suc.IH [OF adv this]
  have "(step env files)\<^sup>*\<^sup>* ?t (s\<lparr>progress := 100, advancer := Finished\<rparr>)"
    by (simp only: simulate_then_finish)
  with st show ?case by (rule converse_rtranclp_into_rtranclp)
qed

lemma run_to_join:
  assumes "files \<noteq> []" and "process_files env files (0, []) = Inr (n, rs)"
  shows "(step env files)\<^sup>*\<^sup>* \<lparr>progress = 0, advancer = NotStarted, handler = AtValidate\<rparr>
           \<lparr>progress = 100, advancer = Finished, handler = Returned (respond rs)\<rparr>"
proof -
  let ?s1 = "\<lparr>progress = 0, advancer = NotStarted, handler = AtValidate\<rparr>"
  let ?s2 = "\<lparr>progress = 0, advancer = Advancing 1, handler = AtLoop\<rparr>"
  let ?s3 = "\<lparr>progress = 0, advancer = Advancing 1, handler = AtJoin rs\<rparr>"
  let ?s4 = "\<lparr>progress = 100, advancer = Finished, handler = AtJoin rs\<rparr>"
  let ?s5 = "\<lparr>progress = 100, advancer = Finished, handler = Returned (respond rs)\<rparr>"
  have a: "step env files ?s1 ?s2"
    using step.start [of ?s1 files env] assms(1) by simp
  have b: "step env files ?s2 ?s3"
    using step.loop_done [of ?s2 env files n rs] assms(2) by simp
  have c: "(step env files)\<^sup>*\<^sup>* ?s3 ?s4"
  proof -
    have "advancer ?s3 = Advancing (100 - 99)" by simp
    from advance_run [OF this, of env files] show ?thesis by simp
  qed
  have d: "step env files ?s4 ?s5"
    using step.join [of ?s4 rs env files] by simp
  from a have "(step env files)\<^sup>*\<^sup>* ?s1 ?s2" by (rule r_into_rtranclp)
  from this b have "(step env files)\<^sup>*\<^sup>* ?s1 ?s3" by (rule rtranclp.rtrancl_into_rtrancl)
  from this c have "(step env files)\<^sup>*\<^sup>* ?s1 ?s4" by (rule rtranclp_trans)
  from this d show ?thesis by (rule rtranclp.rtrancl_into_rtrancl)
qed

lemma complete_run:
  assumes "files \<noteq> []" and "process_files env files (0, []) = Inr (n, rs)"
  shows "(step env files)\<^sup>*\<^sup>* (arrival p)
           \<lparr>progress = 100, advancer = Finished, handler = Returned (respond rs)\<rparr>"
proof -
  have "step env files (arrival p) \<lparr>progress = 0, advancer = NotStarted, handler = AtValidate\<rparr>"
    by (simp add: step_from_arrival)
  from this run_to_join [OF assms] show ?thesis
    by (rule converse_rtranclp_into_rtranclp)
qed

lemma failed_run:
  assumes "files \<noteq> []" and "process_files env files (0, []) = Inl e"
  shows "(step env files)\<^sup>*\<^sup>* (arrival p)
           \<lparr>progress = 1, advancer = Advancing 2, handler = Returned (processing_failed e)\<rparr>"
proof -
  let ?s1 = "\<lparr>progress = 0, advancer = NotStarted, handler = AtValidate\<rparr>"
  let ?s2 = "\<lparr>progress = 0, advancer = Advancing 1, handler = AtLoop\<rparr>"
  let ?s3 = "\<lparr>progress = 1, advancer = Advancing 2, handler = AtLoop\<rparr>"
  let ?s4 = "\<lparr>progress = 1, advancer = Advancing 2, handler = Returned (processing_failed e)\<rparr>"
  have a: "step env files (arrival p) ?s1" by (simp add: step_from_arrival)
  have b: "step env files ?s1 ?s2"
    using step.start [of ?s1 files env] assms(1) by simp
  have c: "step env files ?s2 ?s3"
    using step.advance [of ?s2 1 env files] by (simp add: simulate_progress_def numeral_2_eq_2)
  have d: "step env files ?s3 ?s4"
    using step.loop_raise [of ?s3 env files e] assms(2) by simp
  from a have "(step env files)\<^sup>*\<^sup>* (arrival p) ?s1" by (rule r_into_rtranclp)
  from this b have "(step env files)\<^sup>*\<^sup>* (arrival p) ?s2" by (rule rtranclp.rtrancl_into_rtrancl)
  from this c have "(step env files)\<^sup>*\<^sup>* (arrival p) ?s3" by (rule rtranclp.rtrancl_into_rtrancl)
  from this d show ?thesis by (rule rtranclp.rtrancl_into_rtrancl)
qed

text \<open>
  What holds of a batch that arrives while no advancing thread is alive. The
  handler's first step sets the counter to 0. From any state \<open>s\<close> of the batch
  after that step to any later state \<open>s'\<close> the counter does not decrease, and it
  is at most 100. When the loop ends without an exception the handler does return,
  after the join, and whenever it has returned on that path the counter is 100.
\<close>

lemma progress_from_idle:
  assumes "(step env files)\<^sup>*\<^sup>* (arrival p) s" and "handler s \<noteq> AtReset"
    and "(step env files)\<^sup>*\<^sup>* s s'"
  shows "(\<forall>t. step env files (arrival p) t \<longrightarrow> progress t = 0)
     \<and> progress s \<le> progress s' \<and> progress s' \<le> 100
     \<and> (\<forall>n rs. files \<noteq> [] \<and> process_files env files (0, []) = Inr (n, rs) \<longrightarrow>
          (\<exists>t. (step env files)\<^sup>*\<^sup>* (arrival p) t \<and> handler t = Returned (respond rs)
                \<and> progress t = 100)
          \<and> (\<forall>r. handler s' = Returned r \<longrightarrow> r = respond rs \<and> progress s' = 100))"
proof -
  from reachable_inv [OF assms(1)] assms(2)
  have inv: "thread_inv s" "handler_inv env files s"
    by (auto simp: arrival_def)
  from steps_inv [OF assms(3) inv]
  have inv': "thread_inv s'" "handler_inv env files s'" and le: "progress s \<le> progress s'"
    by simp_all
  have first: "\<forall>t. step env files (arrival p) t \<longrightarrow> progress t = 0"
    by (simp add: step_from_arrival)
  have joined: "(\<exists>t. (step env files)\<^sup>*\<^sup>* (arrival p) t \<and> handler t = Returned (respond rs)
                \<and> progress t = 100)
          \<and> (\<forall>r. handler s' = Returned r \<longrightarrow> r = respond rs \<and> progress s' = 100)"
    if "files \<noteq> [] \<and> process_files env files (0, []) = Inr (n, rs)" for n rs
  proof
    from that complete_run [of files env n rs p]
    show "\<exists>t. (step env files)\<^sup>*\<^sup>* (arrival p) t \<and> handler t = Returned (respond rs)
        \<and> progress t = 100"
      by (intro exI [of _ "\<lparr>progress = 100, advancer = Finished,
          handler = Returned (respond rs)\<rparr>"]) simp
  next
    show "\<forall>r. handler s' = Returned r \<longrightarrow> r = respond rs \<and> progress s' = 100"
    proof (intro allI impI)
      fix r
      assume "handler s' = Returned r"
      with inv'(2) that have "r = respond rs" and "advancer s' = Finished"
        by (auto simp: handler_inv_def)
      with inv'(1) show "r = respond rs \<and> progress s' = 100"
        by (simp add: thread_inv_def)
    qed
  qed
  from first le thread_inv_bound [OF inv'(1)] joined show ?thesis by blast
qed

text \<open>
  C8. The claim: in a single batch the counter is reset to 0, never decreases, and
  is 100 by the time the response is returned, because the handler joins the
  advancing thread before it responds. The join stands after the loop, inside the
  \<^verbatim>\<open>try\<close> block, and the \<^verbatim>\<open>except\<close> clause has none: on the request whose
  one upload is an archive that the reader refuses, the thread makes its first
  store, the loop raises, and the handler returns 500 with the counter at 1 and
  the thread it started still alive.
\<close>

theorem progress_not_joined_on_error:
  "(step demo_env [(''Batch.ZIP'', broken_zip_bytes)])\<^sup>*\<^sup>* (arrival 0) failed_early
   \<and> handler failed_early = Returned (processing_failed ''File is not a zip file'')
   \<and> progress failed_early = 1"
proof -
  have "process_files demo_env [(''Batch.ZIP'', broken_zip_bytes)] (0, [])
      = Inl ''File is not a zip file''"
    by (simp add: Let_def suffix_to_prefix lower_names demo_broken_zip)
  from failed_run [OF _ this, of 0] show ?thesis
    by (simp add: failed_early_def)
qed

text \<open>
  C10. The first step of every request is the store of 0 to the counter, before the
  test of the uploaded files. A request without files is then answered 400
  \<open>{"error": "No files uploaded"}\<close>, no thread is started, and in every state in
  which it has been answered the counter is 0 and \<^verbatim>\<open>GET /progress\<close> reports 0,
  whatever the counter held when the request arrived.
\<close>

theorem upload_resets_progress_first:
  "(\<forall>t. step env files (arrival p) t
        \<longleftrightarrow> t = \<lparr>progress = 0, advancer = NotStarted, handler = AtValidate\<rparr>)
   \<and> (step env [])\<^sup>*\<^sup>* (arrival p)
        \<lparr>progress = 0, advancer = NotStarted, handler = Returned no_files_uploaded\<rparr>
   \<and> (\<forall>t r. (step env [])\<^sup>*\<^sup>* (arrival p) t \<and> handler t = Returned r \<longrightarrow>
          r = no_files_uploaded \<and> advancer t = NotStarted \<and> progress t = 0
          \<and> get_progress t = \<lparr>status = 200, body = JDict [(''progress'', JInt 0)]\<rparr>)"
proof -
  let ?s1 = "\<lparr>progress = 0, advancer = NotStarted, handler = AtValidate\<rparr>"
  let ?s2 = "\<lparr>progress = 0, advancer = NotStarted, handler = Returned no_files_uploaded\<rparr>"
  have first: "\<forall>t. step env files (arrival p) t \<longleftrightarrow> t = ?s1"
    by (simp add: step_from_arrival)
  have a: "step env [] (arrival p) ?s1" by (simp add: step_from_arrival)
  have b: "step env [] ?s1 ?s2"
    using step.no_files [of ?s1 "[]" env] by simp
  from a have "(step env [])\<^sup>*\<^sup>* (arrival p) ?s1" by (rule r_into_rtranclp)
  from this b have run: "(step env [])\<^sup>*\<^sup>* (arrival p) ?s2"
    by (rule rtranclp.rtrancl_into_rtrancl)
  have answered: "r = no_files_uploaded \<and> advancer t = NotStarted \<and> progress t = 0
      \<and> get_progress t = \<lparr>status = 200, body = JDict [(''progress'', JInt 0)]\<rparr>"
    if reach: "(step env [])\<^sup>*\<^sup>* (arrival p) t" and ret: "handler t = Returned r" for t r
  proof -
    from reachable_inv [OF reach] ret
    have ti: "thread_inv t" and hi: "handler_inv env [] t"
      by (auto simp: arrival_def)
    from hi ret have r: "r = no_files_uploaded" and ns: "advancer t = NotStarted"
      by (simp_all add: handler_inv_def)
    from ti ns have "progress t = 0" by (simp add: thread_inv_def)
    with r ns show ?thesis by (simp add: get_progress_def)
  qed
  from first run answered show ?thesis by blast
qed

theorem upload_resets_progress_first_witness:
  "get_progress (arrival 57) = \<lparr>status = 200, body = JDict [(''progress'', JInt 57)]\<rparr>
   \<and> (step demo_env [])\<^sup>*\<^sup>* (arrival 57)
        \<lparr>progress = 0, advancer = NotStarted, handler = Returned no_files_uploaded\<rparr>
   \<and> get_progress \<lparr>progress = 0, advancer = NotStarted, handler = Returned no_files_uploaded\<rparr>
       = \<lparr>status = 200, body = JDict [(''progress'', JInt 0)]\<rparr>"
proof -
  let ?t = "\<lparr>progress = 0, advancer = NotStarted, handler = Returned no_files_uploaded\<rparr>"
  from upload_resets_progress_first [of demo_env "[]" 57]
  have run: "(step demo_env [])\<^sup>*\<^sup>* (arrival 57) ?t"
    and all: "\<forall>t r. (step demo_env [])\<^sup>*\<^sup>* (arrival 57) t \<and> handler t = Returned r \<longrightarrow>
        r = no_files_uploaded \<and> advancer t = NotStarted \<and> progress t = 0
        \<and> get_progress t = \<lparr>status = 200, body = JDict [(''progress'', JInt 0)]\<rparr>"
    by blast+
  from all run have "get_progress ?t = \<lparr>status = 200, body = JDict [(''progress'', JInt 0)]\<rparr>"
    by simp
  with run show ?thesis by (simp add: get_progress_def arrival_def)
qed

end
